theory Spec2Isabelle
  imports Complex_Main "HOL-Library.Multiset"
begin

section \<open>Data model of app.py\<close>

text \<open>
  The script keeps its data in pandas frames read from a spreadsheet. A frame is modelled
  as the list of its rows, in index order. A cell of a fetched frame holds a number, a text
  or nothing (pandas' NaN / NA / None). Python strings are sequences of Unicode code
  points, so a text is a list of code points and \<open>length\<close> is Python's \<open>len\<close>.

  Numbers are exact reals: the traits of the data model are small bounded integers, and
  the rounding, overflow and infinities of float64 are outside this model.
\<close>

type_synonym ustr = "nat list"

datatype cell = Number real | Text ustr | NA

text \<open>A row of \<open>df_activities\<close>, one field per column of \<open>COLS_ACTIVITIES\<close>, in that order.\<close>

record activity_row =
  exp_name :: cell
  act_type :: cell
  content :: cell
  nAch :: cell
  nPow :: cell
  nAff :: cell
  flow :: cell
  memo :: cell

text \<open>
  \<open>pd.to_numeric(col, errors='coerce')\<close> keeps a number, parses a text and yields NaN
  (here \<open>None\<close>) for a text that is no number and for a missing value. The grammar of
  numeric texts belongs to pandas; it is the parameter \<open>P\<close>. \<open>.fillna(0)\<close> replaces NaN.
\<close>

type_synonym parser = "ustr \<Rightarrow> real option"

fun to_numeric :: "parser \<Rightarrow> cell \<Rightarrow> real option" where
  "to_numeric P (Number v) = Some v"
| "to_numeric P (Text s) = P s"
| "to_numeric P NA = None"

definition fillna :: "real \<Rightarrow> real option \<Rightarrow> real" where
  "fillna d v = (case v of None \<Rightarrow> d | Some x \<Rightarrow> x)"

definition numeric_coerce :: "parser \<Rightarrow> cell \<Rightarrow> real" where
  "numeric_coerce P c = fillna 0 (to_numeric P c)"

subsection \<open>get_data, for the worksheet activities\<close>

text \<open>
  The fetched sheet is \<open>None\<close> when reading raises: the handler returns an empty frame.
  A column of \<open>COLS_ACTIVITIES\<close> that the sheet lacks is created holding NA, so a fetched
  row already has all eight fields. The four trait columns are coerced, and
  \<open>dropna(how='all')\<close> removes the rows in which every column is missing.
\<close>

definition coerce_traits :: "parser \<Rightarrow> activity_row \<Rightarrow> activity_row" where
  "coerce_traits P r =
     r\<lparr>nAch := Number (numeric_coerce P (nAch r)),
       nPow := Number (numeric_coerce P (nPow r)),
       nAff := Number (numeric_coerce P (nAff r)),
       flow := Number (numeric_coerce P (flow r))\<rparr>"

definition all_missing :: "activity_row \<Rightarrow> bool" where
  "all_missing r =
     (exp_name r = NA \<and> act_type r = NA \<and> content r = NA \<and> nAch r = NA \<and>
      nPow r = NA \<and> nAff r = NA \<and> flow r = NA \<and> memo r = NA)"

definition dropna_all :: "activity_row list \<Rightarrow> activity_row list" where
  "dropna_all df = filter (\<lambda>r. \<not> all_missing r) df"

definition get_data :: "parser \<Rightarrow> activity_row list option \<Rightarrow> activity_row list" where
  "get_data P fetched =
     (case fetched of
        None \<Rightarrow> []
      | Some df \<Rightarrow> dropna_all (map (coerce_traits P) df))"

subsection \<open>The working frame of the pages\<close>

text \<open>
  Pages 3 and 4 copy \<open>df_activities\<close> and convert the trait columns once more with
  \<open>pd.to_numeric(...).fillna(0)\<close>; from there on the columns are float columns without
  NaN, which the type \<open>real\<close> of the fields records. (Page 4 converts achievement, power
  and affiliation in place and stores the converted flow in a column of its own.)
\<close>

record act_row =
  a_name :: cell
  a_type :: cell
  a_content :: cell
  v_ach :: real
  v_pow :: real
  v_aff :: real
  v_flow :: real
  a_memo :: cell

definition convert_row :: "parser \<Rightarrow> activity_row \<Rightarrow> act_row" where
  "convert_row P r =
     \<lparr>a_name = exp_name r, a_type = act_type r, a_content = content r,
      v_ach = numeric_coerce P (nAch r), v_pow = numeric_coerce P (nPow r),
      v_aff = numeric_coerce P (nAff r), v_flow = numeric_coerce P (flow r),
      a_memo = memo r\<rparr>"

section \<open>Page 3: the weighted ranking\<close>

text \<open>\<open>Series.min()\<close> and \<open>Series.max()\<close>: NaN (here \<open>None\<close>) on an empty column.\<close>

fun series_min :: "real list \<Rightarrow> real option" where
  "series_min [] = None"
| "series_min (x # xs) = Some (fold min xs x)"

fun series_max :: "real list \<Rightarrow> real option" where
  "series_max [] = None"
| "series_max (x # xs) = Some (fold max xs x)"

text \<open>The body of the normalisation loop, for one column.\<close>

definition normalize :: "real list \<Rightarrow> real list" where
  "normalize col =
     (case (series_min col, series_max col) of
        (Some min_val, Some max_val) \<Rightarrow>
          if max_val - min_val = 0 then map (\<lambda>_. 1 / 2) col
          else map (\<lambda>v. (v - min_val) / (max_val - min_val)) col
      | _ \<Rightarrow> map (\<lambda>_. 1 / 2) col)"

text \<open>The four sliders of the sidebar.\<close>

record weights =
  w_ach :: real
  w_pow :: real
  w_aff :: real
  w_flow :: real

text \<open>A row of \<open>act_df\<close> once the \<open>_norm\<close> columns and \<open>My_Score\<close> are added.\<close>

record scored_row =
  base :: act_row
  nAch_norm :: real
  nPow_norm :: real
  nAff_norm :: real
  flow_norm :: real
  My_Score :: real

definition scored :: "parser \<Rightarrow> weights \<Rightarrow> activity_row list \<Rightarrow> scored_row list" where
  "scored P w df =
     (let act_df = map (convert_row P) df;
          a = normalize (map v_ach act_df);
          p = normalize (map v_pow act_df);
          f = normalize (map v_aff act_df);
          fl = normalize (map v_flow act_df)
      in map (\<lambda>i. \<lparr>base = act_df ! i,
                    nAch_norm = a ! i, nPow_norm = p ! i, nAff_norm = f ! i, flow_norm = fl ! i,
                    My_Score = a ! i * w_ach w + p ! i * w_pow w + f ! i * w_aff w
                               + fl ! i * w_flow w\<rparr>)
           [0..<length act_df])"

text \<open>
  \<open>sort_values('My_Score', ascending=True)\<close> sorts the rows by score; rows of equal score
  are kept here in frame order. \<open>tail(10)\<close> keeps the last ten rows, or all when there are
  fewer.
\<close>

definition sort_values :: "scored_row list \<Rightarrow> scored_row list" where
  "sort_values rows = sort_key My_Score rows"

definition tail :: "nat \<Rightarrow> 'a list \<Rightarrow> 'a list" where
  "tail n xs = drop (length xs - n) xs"

definition top_df :: "parser \<Rightarrow> weights \<Rightarrow> activity_row list \<Rightarrow> scored_row list" where
  "top_df P w df = tail 10 (sort_values (scored P w df))"

text \<open>What a section of a page ends up showing.\<close>

datatype error = IndexError

datatype 'a shown = Show_result 'a | Show_info | Show_warning | Show_error error

definition page3_ranking ::
  "parser \<Rightarrow> weights \<Rightarrow> activity_row list \<Rightarrow> scored_row list shown" where
  "page3_ranking P w df_activities =
     (if length df_activities \<ge> 1 then Show_result (top_df P w df_activities)
      else Show_info)"

text \<open>The trait columns by name, to state a property of each of the four.\<close>

datatype trait = Achievement | Power | Affiliation | Flow

fun trait_value :: "trait \<Rightarrow> act_row \<Rightarrow> real" where
  "trait_value Achievement = v_ach"
| "trait_value Power = v_pow"
| "trait_value Affiliation = v_aff"
| "trait_value Flow = v_flow"


definition trait_column :: "parser \<Rightarrow> trait \<Rightarrow> activity_row list \<Rightarrow> real list" where
  "trait_column P t df = map (trait_value t) (map (convert_row P) df)"

fun trait_cell :: "trait \<Rightarrow> activity_row \<Rightarrow> cell" where
  "trait_cell Achievement = nAch"
| "trait_cell Power = nPow"
| "trait_cell Affiliation = nAff"
| "trait_cell Flow = flow"




section \<open>Page 3: the memo keywords\<close>

text \<open>
  \<open>re.findall(r'\w+', all_text)\<close>: the maximal runs of word characters, left to right.
  Which code points are word characters is the table of Python's \<open>re\<close>; it is the
  parameter \<open>isw\<close>.
\<close>

function findall_w :: "(nat \<Rightarrow> bool) \<Rightarrow> ustr \<Rightarrow> ustr list" where
  "findall_w isw [] = []"
| "findall_w isw (c # cs) =
     (if isw c then (c # takeWhile isw cs) # findall_w isw (dropWhile isw cs)
      else findall_w isw cs)"
  by pat_completeness auto
termination
  by (relation "measure (\<lambda>(isw, cs). length cs)")
     (auto simp: length_dropWhile_le less_Suc_eq_le)

text \<open>The stop words of the script, as code points.\<close>

definition stop_words :: "ustr list" where
  "stop_words =
     [[54616, 45716], [51080, 45716], [44032, 51109], [53685, 54644], [45824, 54620],
      [44163, 51060], [45236, 44032], [45208, 51032], [54632], [51020], [45716], [51008],
      [51060], [44032], [51012], [47484], [110, 97, 110], [78, 111, 110, 101]]"

definition keep_word :: "ustr \<Rightarrow> bool" where
  "keep_word w = (length w > 1 \<and> w \<notin> set stop_words)"

text \<open>
  \<open>Counter(words)\<close> is a dict: its items are in the order in which the keys were first
  inserted. \<open>most_common(n)\<close> is \<open>sorted(items, key=count, reverse=True)[:n]\<close>, a stable
  sort.
\<close>

fun counter_add :: "(ustr \<times> nat) list \<Rightarrow> ustr \<Rightarrow> (ustr \<times> nat) list" where
  "counter_add [] w = [(w, 1)]"
| "counter_add ((k, c) # kcs) w =
     (if k = w then (k, c + 1) # kcs else (k, c) # counter_add kcs w)"

definition Counter :: "ustr list \<Rightarrow> (ustr \<times> nat) list" where
  "Counter ws = fold (\<lambda>w acc. counter_add acc w) ws []"

definition most_common :: "nat \<Rightarrow> (ustr \<times> nat) list \<Rightarrow> (ustr \<times> nat) list" where
  "most_common n items = take n (sort_key (\<lambda>kc. - int (snd kc)) items)"

definition words_of :: "(nat \<Rightarrow> bool) \<Rightarrow> ustr \<Rightarrow> ustr list" where
  "words_of isw all_text = filter keep_word (findall_w isw all_text)"

definition word_counts :: "(nat \<Rightarrow> bool) \<Rightarrow> ustr \<Rightarrow> (ustr \<times> nat) list" where
  "word_counts isw all_text = most_common 30 (Counter (words_of isw all_text))"

text \<open>The position at which a word is first met in a list of words.\<close>

definition first_index :: "'a list \<Rightarrow> 'a \<Rightarrow> nat" where
  "first_index ws w = length (takeWhile (\<lambda>x. x \<noteq> w) ws)"

text \<open>The count a list of items holds for a key, 0 when the key is not in it.\<close>

definition lookup :: "(ustr \<times> nat) list \<Rightarrow> ustr \<Rightarrow> nat" where
  "lookup items k = (case map_of items k of None \<Rightarrow> 0 | Some c \<Rightarrow> c)"

section \<open>Page 4: similar experiences\<close>

text \<open>
  \<open>act_df['name'] == selected\<close> compares cell by cell; a missing value equals nothing,
  not even itself. \<open>.iloc[0]\<close> takes the first matching row and raises IndexError when
  there is none.
\<close>

definition cell_eq :: "cell \<Rightarrow> cell \<Rightarrow> bool" where
  "cell_eq a b = (a \<noteq> NA \<and> b \<noteq> NA \<and> a = b)"

definition target_row :: "act_row list \<Rightarrow> cell \<Rightarrow> error + act_row" where
  "target_row act_df selected =
     (case filter (\<lambda>r. cell_eq (a_name r) selected) act_df of
        [] \<Rightarrow> Inl IndexError
      | r # _ \<Rightarrow> Inr r)"

text \<open>The columns \<open>numeric_cols\<close> of a row: achievement, power, affiliation.\<close>

definition numeric_cols :: "act_row \<Rightarrow> real list" where
  "numeric_cols r = [v_ach r, v_pow r, v_aff r]"

text \<open>
  \<open>NearestNeighbors(n_neighbors=k, metric='euclidean').fit(X).kneighbors(q)\<close> belongs to
  scikit-learn. It is the parameter \<open>knn\<close>, a function of the fitted matrix, of \<open>k\<close> and of
  the query vector that returns \<open>(distances[0], indices[0])\<close>. What the script relies on
  is \<open>knn_contract\<close>: for \<open>k\<close> not above the number of rows the library returns \<open>k\<close>
  different row numbers with their Euclidean distances to the query, nearest first, and no
  row left out is nearer than a row returned. The library promises no order among rows at
  the same distance, and the contract fixes none.
\<close>

type_synonym knn_lib = "real list list \<Rightarrow> nat \<Rightarrow> real list \<Rightarrow> real list \<times> nat list"

definition euclidean :: "real list \<Rightarrow> real list \<Rightarrow> real" where
  "euclidean p q = sqrt (\<Sum>(a, b)\<leftarrow>zip p q. (a - b)\<^sup>2)"

definition knn_contract :: "knn_lib \<Rightarrow> bool" where
  "knn_contract knn =
     (\<forall>X k q. k \<le> length X \<longrightarrow>
        (case knn X k q of (ds, ns) \<Rightarrow>
           length ns = k \<and> distinct ns \<and> (\<forall>i \<in> set ns. i < length X) \<and>
           ds = map (\<lambda>i. euclidean (X ! i) q) ns \<and> sorted ds \<and>
           (\<forall>j < length X. j \<notin> set ns \<longrightarrow> (\<forall>d \<in> set ds. d \<le> euclidean (X ! j) q))))"

text \<open>
  A function that meets the contract, to run the page on concrete frames: all rows sorted by
  distance, rows at the same distance in frame order, the first \<open>k\<close> kept.
\<close>

definition kneighbors_ref :: knn_lib where
  "kneighbors_ref X k q =
     (let order = take k (sort_key (\<lambda>i. euclidean (X ! i) q) [0..<length X])
      in (map (\<lambda>i. euclidean (X ! i) q) order, order))"

text \<open>The same with rows at the same distance in reverse frame order.\<close>

definition kneighbors_rev :: knn_lib where
  "kneighbors_rev X k q =
     (let order = take k (sort_key (\<lambda>i. euclidean (X ! i) q) (rev [0..<length X]))
      in (map (\<lambda>i. euclidean (X ! i) q) order, order))"

text \<open>
  The neighbour search of page 4, from the copy of the frame to \<open>neighbor_indices\<close>. The
  result pairs each reported row number with its distance. The 2-dimensional projection
  (PCA) of the same matrix only places the points of the chart and is not modelled.
\<close>

definition fit_matrix :: "parser \<Rightarrow> activity_row list \<Rightarrow> real list list" where
  "fit_matrix P df = map numeric_cols (map (convert_row P) df)"

definition neighbors ::
  "knn_lib \<Rightarrow> parser \<Rightarrow> activity_row list \<Rightarrow> cell \<Rightarrow> error + (real \<times> nat) list" where
  "neighbors knn P df selected_act_name =
     (let act_df = map (convert_row P) df in
      case target_row act_df selected_act_name of
        Inl e \<Rightarrow> Inl e
      | Inr target \<Rightarrow>
          (let target_vec = numeric_cols target;
               n_neighbors = min 4 (length act_df);
               (distances, indices) = knn (map numeric_cols act_df) n_neighbors target_vec
           in Inr (zip (tl distances) (tl indices))))"

definition page4 ::
  "knn_lib \<Rightarrow> parser \<Rightarrow> activity_row list \<Rightarrow> cell \<Rightarrow> (real \<times> nat) list shown" where
  "page4 knn P df_activities selected_act_name =
     (if length df_activities \<ge> 3 then
        (case neighbors knn P df_activities selected_act_name of
           Inl e \<Rightarrow> Show_error e
         | Inr ns \<Rightarrow> Show_result ns)
      else Show_warning)"

text \<open>The row number of the anchor: the first row whose name is the selected one.\<close>

definition anchor_index :: "activity_row list \<Rightarrow> cell \<Rightarrow> nat" where
  "anchor_index df selected =
     length (takeWhile (\<lambda>r. \<not> cell_eq (exp_name r) selected) df)"

section \<open>Concrete frames\<close>

text \<open>
  A parser that reads the text \<open>5\<close> as a number and nothing else, and small sheets to run
  the pages on. In \<open>ex_sheet\<close> the second row holds the achievement as the text \<open>5\<close> and an
  affiliation that is no number, and the third row has no flow value. In \<open>ex_twins\<close> the
  rows \<open>A\<close> and \<open>B\<close> have the same traits. In \<open>ex_ties\<close> the rows \<open>B\<close> and \<open>C\<close> are
  equally far from \<open>A\<close>.
\<close>

definition ex_parser :: parser where
  "ex_parser s = (if s = [53] then Some 5 else None)"

definition activity :: "ustr \<Rightarrow> cell \<Rightarrow> cell \<Rightarrow> cell \<Rightarrow> cell \<Rightarrow> activity_row" where
  "activity name a p f fl =
     \<lparr>exp_name = Text name, act_type = NA, content = NA,
      nAch = a, nPow = p, nAff = f, flow = fl, memo = NA\<rparr>"

definition ex_sheet :: "activity_row list" where
  "ex_sheet =
     [activity [65] (Number 0) (Number 3) (Number 1) (Number 50),
      activity [66] (Text [53]) (Number 3) (Text [120]) (Number 50),
      activity [67] (Number 10) (Number 3) (Number 2) NA]"

definition ex_twins :: "activity_row list" where
  "ex_twins =
     [activity [65] (Number 1) (Number 1) (Number 1) (Number 10),
      activity [66] (Number 1) (Number 1) (Number 1) (Number 20),
      activity [67] (Number 5) (Number 5) (Number 5) (Number 30)]"

definition ex_ties :: "activity_row list" where
  "ex_ties =
     [activity [65] (Number 5) (Number 5) (Number 5) (Number 50),
      activity [66] (Number 6) (Number 5) (Number 5) (Number 50),
      activity [67] (Number 5) (Number 6) (Number 5) (Number 50)]"

definition ex_weights :: weights where
  "ex_weights = \<lparr>w_ach = 1, w_pow = 2, w_aff = 0, w_flow = 1\<rparr>"

text \<open>
  Word characters for the examples: everything but the blank and the full stop. The text is
  \<open>bb aa nan None.aa c bb dd\<close>.
\<close>

definition ex_isw :: "nat \<Rightarrow> bool" where
  "ex_isw c = (c \<noteq> 32 \<and> c \<noteq> 46)"

definition ex_text :: ustr where
  "ex_text = [98, 98, 32, 97, 97, 32, 110, 97, 110, 32, 78, 111, 110, 101, 46, 97, 97, 32, 99, 32, 98, 98, 32, 100, 100]"

lemmas ex_simps = ex_sheet_def ex_twins_def activity_def ex_parser_def ex_weights_def
  trait_column_def convert_row_def numeric_coerce_def fillna_def

section \<open>Coercion of the trait columns\<close>

text \<open>
  After the coercion no row has all its columns missing, so \<open>dropna(how='all')\<close> drops
  nothing.
\<close>

lemma coerce_traits_not_missing: "\<not> all_missing (coerce_traits P r)"
  by (simp add: all_missing_def coerce_traits_def)

lemma dropna_all_coerced: "dropna_all (map (coerce_traits P) df) = map (coerce_traits P) df"
  by (simp add: dropna_all_def coerce_traits_not_missing)

lemma get_data_Some: "get_data P (Some sheet) = map (coerce_traits P) sheet"
  by (simp add: get_data_def dropna_all_coerced)

lemma numeric_coerce_Number [simp]: "numeric_coerce P (Number v) = v"
  by (simp add: numeric_coerce_def fillna_def)

lemma trait_cell_coerce:
  "trait_cell t (coerce_traits P r) = Number (numeric_coerce P (trait_cell t r))"
  by (cases t) (simp_all add: coerce_traits_def)

lemma trait_value_convert:
  "trait_value t (convert_row P r) = numeric_coerce P (trait_cell t r)"
  by (cases t) (simp_all add: convert_row_def)

lemma numeric_cols_convert:
  "numeric_cols (convert_row P r) =
     [numeric_coerce P (nAch r), numeric_coerce P (nPow r), numeric_coerce P (nAff r)]"
  by (simp add: numeric_cols_def convert_row_def)

lemma length_fit_matrix [simp]: "length (fit_matrix P df) = length df"
  by (simp add: fit_matrix_def)

lemma fit_matrix_nth:
  "i < length df \<Longrightarrow> fit_matrix P df ! i = numeric_cols (convert_row P (df ! i))"
  by (simp add: fit_matrix_def)

text \<open>
  C7. Whatever the sheet holds in a trait column, \<open>get_data\<close> keeps every row and stores
  a number there: the parsed value, or 0 where \<open>to_numeric\<close> finds no number (a missing
  cell or a text that is no number). The column the scorer normalises
  (\<open>trait_column\<close>) and the matrix handed to the projection and to the neighbour search
  (\<open>fit_matrix\<close>) hold exactly these numbers.
\<close>

theorem C7_traits_coerced:
  assumes "i < length sheet"
  shows "length (get_data P (Some sheet)) = length sheet \<and>
         trait_cell t (get_data P (Some sheet) ! i) =
           Number (case to_numeric P (trait_cell t (sheet ! i)) of None \<Rightarrow> 0 | Some v \<Rightarrow> v) \<and>
         trait_column P t (get_data P (Some sheet)) ! i =
           (case to_numeric P (trait_cell t (sheet ! i)) of None \<Rightarrow> 0 | Some v \<Rightarrow> v) \<and>
         fit_matrix P (get_data P (Some sheet)) ! i =
           map (\<lambda>t. case to_numeric P (trait_cell t (sheet ! i)) of None \<Rightarrow> 0 | Some v \<Rightarrow> v)
             [Achievement, Power, Affiliation] \<and>
         (to_numeric P (trait_cell t (sheet ! i)) = None \<longrightarrow>
            trait_column P t (get_data P (Some sheet)) ! i = 0)"
proof -
  have cell: "trait_cell t (get_data P (Some sheet) ! i) =
      Number (numeric_coerce P (trait_cell t (sheet ! i)))"
    using assms by (simp add: get_data_Some trait_cell_coerce)
  have col: "trait_column P t (get_data P (Some sheet)) ! i =
      numeric_coerce P (trait_cell t (sheet ! i))"
    using assms
    by (simp add: get_data_Some trait_column_def trait_value_convert trait_cell_coerce)
  have fit: "fit_matrix P (get_data P (Some sheet)) ! i =
      map (\<lambda>t. numeric_coerce P (trait_cell t (sheet ! i))) [Achievement, Power, Affiliation]"
    using assms
    by (simp add: get_data_Some fit_matrix_def numeric_cols_convert coerce_traits_def)
  show ?thesis
    using cell col fit
    by (simp add: get_data_Some numeric_coerce_def fillna_def)
qed

theorem C7_traits_coerced_witness:
  "length (get_data ex_parser (Some ex_sheet)) = 3 \<and>
   trait_cell Achievement (get_data ex_parser (Some ex_sheet) ! 1) = Number 5 \<and>
   trait_column ex_parser Affiliation (get_data ex_parser (Some ex_sheet)) ! 1 = 0 \<and>
   trait_column ex_parser Flow (get_data ex_parser (Some ex_sheet)) ! 2 = 0 \<and>
   fit_matrix ex_parser (get_data ex_parser (Some ex_sheet)) ! 1 = [5, 3, 0]"
  using C7_traits_coerced [of 1 ex_sheet ex_parser Achievement]
    C7_traits_coerced [of 1 ex_sheet ex_parser Affiliation]
    C7_traits_coerced [of 2 ex_sheet ex_parser Flow]
  by (simp add: ex_sheet_def activity_def ex_parser_def)

section \<open>Normalisation and score\<close>




lemma length_normalize [simp]: "length (normalize xs) = length xs"
  by (cases xs) (simp_all add: normalize_def)


lemma length_scored [simp]: "length (scored P w df) = length df"
  by (simp add: scored_def Let_def)










section \<open>The ten best rows\<close>

text \<open>\<open>tail(n)\<close> of a sorted frame: the rows cut off score no more than the rows kept.\<close>

lemma tail_length [simp]: "length (tail n xs) = min n (length xs)"
  by (simp add: tail_def)








lemma ex_sheet_scores: "map My_Score (scored ex_parser ex_weights ex_sheet) = [2, 5 / 2, 2]"
  by (simp add: scored_def Let_def normalize_def ex_simps upt_rec)

lemma ex_sheet_ranking: "map My_Score (top_df ex_parser ex_weights ex_sheet) = [2, 2, 5 / 2]"
  by (simp add: top_df_def tail_def sort_values_def scored_def Let_def normalize_def ex_simps
      upt_rec)

section \<open>Too little data\<close>

text \<open>
  C4. With fewer than three activities page 4 shows its warning and runs neither the
  projection nor the neighbour search; with no activity the ranking of page 3 shows its
  information line and scores nothing. Neither ends in an error. A failed read of the
  sheet gives the empty frame and so the same two outcomes.
\<close>

theorem C4_insufficient_data:
  "(length df < 3 \<longrightarrow> page4 knn P df sel = Show_warning) \<and>
   (length df = 0 \<longrightarrow> page3_ranking P w df = Show_info) \<and>
   page3_ranking P w (get_data P None) = Show_info \<and>
   page4 knn P (get_data P None) sel = Show_warning"
  by (simp add: page4_def page3_ranking_def get_data_def)

theorem C4_insufficient_data_witness:
  "page4 kneighbors_ref ex_parser (take 2 ex_sheet) (Text [65]) = Show_warning \<and>
   page3_ranking ex_parser ex_weights [] = Show_info"
  using C4_insufficient_data [of "take 2 ex_sheet" kneighbors_ref ex_parser "Text [65]"]
    C4_insufficient_data [of "[]" kneighbors_ref ex_parser "Text [65]" ex_weights]
  by (simp add: ex_sheet_def)

section \<open>The neighbour search\<close>

text \<open>Sorting any enumeration of the rows by distance and keeping the first \<open>k\<close> gives the \<open>k\<close> nearest.\<close>

lemma sorted_prefix_nearest:
  fixes f :: "nat \<Rightarrow> real"
  assumes "distinct idx" and "set idx = {0..<n}" and "k \<le> n"
  defines "s \<equiv> sort_key f idx"
  shows "length (take k s) = k \<and> distinct (take k s) \<and> (\<forall>i \<in> set (take k s). i < n) \<and>
         sorted (map f (take k s)) \<and>
         (\<forall>j < n. j \<notin> set (take k s) \<longrightarrow> (\<forall>d \<in> set (map f (take k s)). d \<le> f j))"
proof -
  have "length idx = card (set idx)"
    using assms(1) by (simp add: distinct_card)
  then have len_s: "length s = n"
    by (simp add: s_def assms(2))
  have len: "length (take k s) = k"
    using assms(3) len_s by simp
  have dist: "distinct (take k s)"
    using assms(1) by (simp add: s_def distinct_take)
  have set_s: "set s = {0..<n}"
    by (simp add: s_def assms(2))
  have rng: "\<forall>i \<in> set (take k s). i < n"
  proof
    fix i assume "i \<in> set (take k s)"
    then have "i \<in> set s" by (rule in_set_takeD)
    then show "i < n" by (simp add: set_s)
  qed
  have srt_all: "sorted (map f (take k s @ drop k s))"
    by (simp add: s_def)
  have srt: "sorted (map f (take k s))"
    using srt_all by (simp add: sorted_append del: append_take_drop_id)
  have cross: "\<forall>x \<in> set (take k s). \<forall>y \<in> set (drop k s). f x \<le> f y"
    using srt_all by (simp add: sorted_append del: append_take_drop_id)
  have far: "\<forall>j < n. j \<notin> set (take k s) \<longrightarrow> (\<forall>d \<in> set (map f (take k s)). d \<le> f j)"
  proof (intro allI impI ballI)
    fix j d
    assume j: "j < n" and out: "j \<notin> set (take k s)" and d: "d \<in> set (map f (take k s))"
    have "j \<in> set (take k s @ drop k s)"
      using j by (simp add: set_s)
    then have jd: "j \<in> set (drop k s)"
      using out by (simp del: append_take_drop_id)
    obtain x where x: "x \<in> set (take k s)" and dx: "d = f x"
      using d by auto
    show "d \<le> f j"
      unfolding dx using cross x jd by blast
  qed
  show ?thesis
    by (intro conjI len dist rng srt far)
qed

lemma kneighbors_ref_contract: "knn_contract kneighbors_ref"
  unfolding knn_contract_def
proof (intro allI impI)
  fix X :: "real list list" and k :: nat and q :: "real list"
  assume k: "k \<le> length X"
  have "distinct [0..<length X]" and "set [0..<length X] = {0..<length X}"
    by simp_all
  from sorted_prefix_nearest [OF this k, of "\<lambda>i. euclidean (X ! i) q"]
  show "case kneighbors_ref X k q of (ds, ns) \<Rightarrow>
           length ns = k \<and> distinct ns \<and> (\<forall>i \<in> set ns. i < length X) \<and>
           ds = map (\<lambda>i. euclidean (X ! i) q) ns \<and> sorted ds \<and>
           (\<forall>j < length X. j \<notin> set ns \<longrightarrow> (\<forall>d \<in> set ds. d \<le> euclidean (X ! j) q))"
    by (simp add: kneighbors_ref_def Let_def)
qed

lemma kneighbors_rev_contract: "knn_contract kneighbors_rev"
  unfolding knn_contract_def
proof (intro allI impI)
  fix X :: "real list list" and k :: nat and q :: "real list"
  assume k: "k \<le> length X"
  have "distinct (rev [0..<length X])" and "set (rev [0..<length X]) = {0..<length X}"
    by simp_all
  from sorted_prefix_nearest [OF this k, of "\<lambda>i. euclidean (X ! i) q"]
  show "case kneighbors_rev X k q of (ds, ns) \<Rightarrow>
           length ns = k \<and> distinct ns \<and> (\<forall>i \<in> set ns. i < length X) \<and>
           ds = map (\<lambda>i. euclidean (X ! i) q) ns \<and> sorted ds \<and>
           (\<forall>j < length X. j \<notin> set ns \<longrightarrow> (\<forall>d \<in> set ds. d \<le> euclidean (X ! j) q))"
    by (simp add: kneighbors_rev_def Let_def)
qed

text \<open>The first row with the selected name, and what page 4 computes from it.\<close>

lemma first_match:
  "\<exists>x \<in> set xs. Q x \<Longrightarrow>
   filter Q xs \<noteq> [] \<and> hd (filter Q xs) = xs ! length (takeWhile (\<lambda>x. \<not> Q x) xs)"
  by (induction xs) auto

lemma no_match: "\<not> (\<exists>x \<in> set xs. Q x) \<Longrightarrow> filter Q xs = []"
  by (induction xs) auto

lemma anchor_index_less:
  "\<exists>r \<in> set df. cell_eq (exp_name r) sel \<Longrightarrow> anchor_index df sel < length df"
  unfolding anchor_index_def by (induction df) auto

lemma anchor_index_match:
  "\<exists>r \<in> set df. cell_eq (exp_name r) sel \<Longrightarrow> cell_eq (exp_name (df ! anchor_index df sel)) sel"
  unfolding anchor_index_def by (induction df) auto

lemma anchor_index_first:
  "j < anchor_index df sel \<Longrightarrow> \<not> cell_eq (exp_name (df ! j)) sel"
  unfolding anchor_index_def
  by (induction df arbitrary: j) (auto simp: nth_Cons' split: if_splits)

lemma a_name_convert [simp]: "a_name (convert_row P r) = exp_name r"
  by (simp add: convert_row_def)

lemma target_row_found:
  assumes "\<exists>r \<in> set df. cell_eq (exp_name r) sel"
  shows "target_row (map (convert_row P) df) sel = Inr (convert_row P (df ! anchor_index df sel))"
proof -
  let ?Q = "\<lambda>r. cell_eq (exp_name r) sel"
  have f: "filter (\<lambda>r. cell_eq (a_name r) sel) (map (convert_row P) df) =
      map (convert_row P) (filter ?Q df)"
    by (simp add: filter_map comp_def)
  have ne: "filter ?Q df \<noteq> []" and h: "hd (filter ?Q df) = df ! anchor_index df sel"
    using first_match [OF assms] by (simp_all add: anchor_index_def)
  then show ?thesis
    unfolding target_row_def f by (cases "filter ?Q df") simp_all
qed

lemma target_row_missing:
  assumes "\<not> (\<exists>r \<in> set df. cell_eq (exp_name r) sel)"
  shows "target_row (map (convert_row P) df) sel = Inl IndexError"
proof -
  have "filter (\<lambda>r. cell_eq (a_name r) sel) (map (convert_row P) df) = []"
    using assms by (intro no_match) simp
  then show ?thesis
    by (simp add: target_row_def)
qed

lemma neighbors_found:
  assumes "\<exists>r \<in> set df. cell_eq (exp_name r) sel"
  shows "neighbors knn P df sel =
     (case knn (fit_matrix P df) (min 4 (length df)) (fit_matrix P df ! anchor_index df sel) of
        (ds, ns) \<Rightarrow> Inr (zip (tl ds) (tl ns)))"
  using anchor_index_less [OF assms]
  by (simp add: neighbors_def Let_def target_row_found [OF assms] fit_matrix_nth)
     (simp add: fit_matrix_def)

lemma neighbors_missing:
  assumes "\<not> (\<exists>r \<in> set df. cell_eq (exp_name r) sel)"
  shows "neighbors knn P df sel = Inl IndexError"
  by (simp add: neighbors_def Let_def target_row_missing [OF assms])

text \<open>
  A row without a name can be picked in the select box but equals nothing; \<open>.iloc[0]\<close>
  then raises, and the page shows its error message.
\<close>

lemma page4_unnamed_anchor: "length df \<ge> 3 \<Longrightarrow> page4 knn P df NA = Show_error IndexError"
  by (simp add: page4_def neighbors_missing cell_eq_def)

text \<open>
  C10. The anchor is chosen by name. When some row has the selected name, the anchor is
  the first such row in frame order (no earlier row has the name), also when later rows
  have the same name. The matrix searched holds the trait vector of every row of the
  frame, so those later rows stay among the candidates, and the query is the trait vector
  of that first row. In the example that follows the frame has two rows named \<open>B\<close>:
  row 1 is the anchor and row 4 is reported as one of its neighbours.
\<close>

theorem C10_first_match_is_anchor:
  assumes "\<exists>r \<in> set df. cell_eq (exp_name r) sel"
  shows "anchor_index df sel < length df \<and>
         cell_eq (exp_name (df ! anchor_index df sel)) sel \<and>
         (\<forall>j < anchor_index df sel. \<not> cell_eq (exp_name (df ! j)) sel) \<and>
         target_row (map (convert_row P) df) sel = Inr (convert_row P (df ! anchor_index df sel)) \<and>
         length (fit_matrix P df) = length df \<and>
         (\<forall>j < length df. fit_matrix P df ! j = numeric_cols (convert_row P (df ! j))) \<and>
         neighbors knn P df sel =
           (case knn (fit_matrix P df) (min 4 (length df))
                   (numeric_cols (convert_row P (df ! anchor_index df sel))) of
              (ds, ns) \<Rightarrow> Inr (zip (tl ds) (tl ns)))"
  using anchor_index_less [OF assms] anchor_index_match [OF assms] anchor_index_first [of _ df sel]
    target_row_found [OF assms, of P] neighbors_found [OF assms, of knn P]
  by (simp add: fit_matrix_nth)

theorem C10_first_match_is_anchor_witness:
  "anchor_index (ex_sheet @ ex_twins) (Text [66]) = 1 \<and>
   target_row (map (convert_row ex_parser) (ex_sheet @ ex_twins)) (Text [66]) =
     Inr (convert_row ex_parser (ex_sheet ! 1)) \<and>
   length (fit_matrix ex_parser (ex_sheet @ ex_twins)) = 6 \<and>
   neighbors kneighbors_ref ex_parser (ex_sheet @ ex_twins) (Text [66]) =
     Inr [(sqrt 21, 3), (sqrt 21, 4), (sqrt 26, 0)]"
  using C10_first_match_is_anchor [of "ex_sheet @ ex_twins" "Text [66]" ex_parser kneighbors_ref]
  by (simp add: cell_eq_def anchor_index_def kneighbors_ref_def euclidean_def fit_matrix_def
      numeric_cols_def Let_def ex_simps upt_rec)






text \<open>The neighbours of \<open>B\<close> in \<open>ex_sheet\<close>, nearest first.\<close>

lemma ex_sheet_neighbors:
  "neighbors kneighbors_ref ex_parser ex_sheet (Text [66]) = Inr [(sqrt 26, 0), (sqrt 29, 2)]"
  by (simp add: neighbors_def target_row_def cell_eq_def kneighbors_ref_def euclidean_def
      numeric_cols_def Let_def ex_simps upt_rec)

text \<open>Distances are not negative, and over three columns distance 0 means equal trait vectors.\<close>

lemma euclidean_nonneg: "0 \<le> euclidean p q"
proof -
  have "0 \<le> (\<Sum>(a, b)\<leftarrow>zip p q. (a - b)\<^sup>2)"
    by (rule sum_list_nonneg) auto
  then show ?thesis
    by (simp add: euclidean_def)
qed

lemma euclidean_self: "euclidean p p = 0"
proof -
  have "(\<Sum>(a, b)\<leftarrow>zip p p. (a - b)\<^sup>2) = 0"
    by (induction p) simp_all
  then show ?thesis
    by (simp add: euclidean_def)
qed

lemma euclidean3_zero:
  "euclidean [a, b, c] [a', b', c'] = 0 \<Longrightarrow> [a, b, c] = [a', b', c']"
proof -
  assume "euclidean [a, b, c] [a', b', c'] = 0"
  then have "(a - a')\<^sup>2 + ((b - b')\<^sup>2 + (c - c')\<^sup>2) = 0"
    by (simp add: euclidean_def)
  then have "(a - a')\<^sup>2 = 0 \<and> (b - b')\<^sup>2 = 0 \<and> (c - c')\<^sup>2 = 0"
    by (simp add: add_nonneg_eq_0_iff)
  then show ?thesis
    by simp
qed

lemma fit_matrix_zero_distance:
  assumes "i < length df" and "j < length df"
    and "euclidean (fit_matrix P df ! i) (fit_matrix P df ! j) = 0"
  shows "fit_matrix P df ! i = fit_matrix P df ! j"
proof -
  have "euclidean (numeric_cols (convert_row P (df ! i))) (numeric_cols (convert_row P (df ! j))) = 0"
    using assms by (simp add: fit_matrix_nth)
  then have "numeric_cols (convert_row P (df ! i)) = numeric_cols (convert_row P (df ! j))"
    unfolding numeric_cols_def by (rule euclidean3_zero)
  then show ?thesis
    using assms(1,2) by (simp add: fit_matrix_nth)
qed

lemma knn_contractD:
  assumes "knn_contract knn" and "k \<le> length X" and "knn X k q = (ds, ns)"
  shows "length ns = k" and "distinct ns" and "\<forall>i \<in> set ns. i < length X"
    and "ds = map (\<lambda>i. euclidean (X ! i) q) ns" and "sorted ds"
    and "\<forall>j < length X. j \<notin> set ns \<longrightarrow> (\<forall>d \<in> set ds. d \<le> euclidean (X ! j) q)"
proof -
  have "case knn X k q of (ds, ns) \<Rightarrow>
      length ns = k \<and> distinct ns \<and> (\<forall>i \<in> set ns. i < length X) \<and>
      ds = map (\<lambda>i. euclidean (X ! i) q) ns \<and> sorted ds \<and>
      (\<forall>j < length X. j \<notin> set ns \<longrightarrow> (\<forall>d \<in> set ds. d \<le> euclidean (X ! j) q))"
    using assms(1) [unfolded knn_contract_def, rule_format, of k X q] assms(2) by simp
  then have all: "length ns = k \<and> distinct ns \<and> (\<forall>i \<in> set ns. i < length X) \<and>
      ds = map (\<lambda>i. euclidean (X ! i) q) ns \<and> sorted ds \<and>
      (\<forall>j < length X. j \<notin> set ns \<longrightarrow> (\<forall>d \<in> set ds. d \<le> euclidean (X ! j) q))"
    unfolding assms(3) prod.case .
  show "length ns = k"
    using all by (elim conjE)
  show "distinct ns"
    using all by (elim conjE)
  show "\<forall>i \<in> set ns. i < length X"
    using all by (elim conjE)
  show "ds = map (\<lambda>i. euclidean (X ! i) q) ns"
    using all by (elim conjE)
  show "sorted ds"
    using all by (elim conjE)
  show "\<forall>j < length X. j \<notin> set ns \<longrightarrow> (\<forall>d \<in> set ds. d \<le> euclidean (X ! j) q)"
    using all by (elim conjE)
qed

text \<open>What the contract gives for the call of page 4.\<close>

lemma neighbors_by_contract:
  fixes P :: parser and df :: "activity_row list" and sel :: cell
  assumes c: "knn_contract knn" and ex: "\<exists>r \<in> set df. cell_eq (exp_name r) sel"
  defines "f \<equiv> \<lambda>i. euclidean (fit_matrix P df ! i) (fit_matrix P df ! anchor_index df sel)"
  shows "\<exists>ns. length ns = min 4 (length df) \<and> distinct ns \<and> (\<forall>i \<in> set ns. i < length df) \<and>
           sorted (map f ns) \<and>
           neighbors knn P df sel = Inr (map (\<lambda>i. (f i, i)) (tl ns))"
proof -
  let ?X = "fit_matrix P df"
  let ?q = "?X ! anchor_index df sel"
  obtain ds ns where r: "knn ?X (min 4 (length df)) ?q = (ds, ns)"
    by (cases "knn ?X (min 4 (length df)) ?q")
  have k: "min 4 (length df) \<le> length ?X"
    by simp
  have p: "length ns = min 4 (length df)" "distinct ns" "\<forall>i \<in> set ns. i < length df"
    "ds = map f ns" "sorted ds"
    using knn_contractD(1-5) [OF c k r] by (simp_all add: f_def)
  have "zip (map f (tl ns)) (tl ns) = map (\<lambda>i. (f i, i)) (tl ns)"
    by (simp add: zip_map1 zip_same_conv_map)
  then have "zip (tl ds) (tl ns) = map (\<lambda>i. (f i, i)) (tl ns)"
    unfolding p(4) by (simp add: map_tl)
  then have "neighbors knn P df sel = Inr (map (\<lambda>i. (f i, i)) (tl ns))"
    using neighbors_found [OF ex, of knn P] r by simp
  then show ?thesis
    using p by auto
qed

text \<open>
  For every frame with a matching anchor the list has
  min(4, N) - 1 entries, its row numbers are different rows of the frame, each is annotated
  with its Euclidean distance to the anchor over the three trait columns, and the distances
  do not decrease.
\<close>

lemma neighbors_length_sorted:
  assumes "knn_contract knn" and "\<exists>r \<in> set df. cell_eq (exp_name r) sel"
  shows "\<exists>ns. neighbors knn P df sel = Inr ns \<and>
           length ns = min 4 (length df) - 1 \<and>
           sorted (map fst ns) \<and> distinct (map snd ns) \<and>
           (\<forall>(d, i) \<in> set ns. i < length df \<and>
              d = euclidean (fit_matrix P df ! i) (fit_matrix P df ! anchor_index df sel))"
proof -
  let ?f = "\<lambda>i. euclidean (fit_matrix P df ! i) (fit_matrix P df ! anchor_index df sel)"
  obtain ns where ns: "length ns = min 4 (length df)" "distinct ns" "\<forall>i \<in> set ns. i < length df"
      "sorted (map ?f ns)" "neighbors knn P df sel = Inr (map (\<lambda>i. (?f i, i)) (tl ns))"
    using neighbors_by_contract [OF assms, of P] by blast
  have sub: "set (tl ns) \<subseteq> set ns"
    by (cases ns) auto
  have "sorted (map ?f (tl ns))"
    using ns(4) by (cases ns) simp_all
  moreover have "distinct (tl ns)"
    using ns(2) by (rule distinct_tl)
  moreover have "\<forall>i \<in> set (tl ns). i < length df"
    using ns(3) sub by blast
  ultimately show ?thesis
    using ns(1,5) by (auto simp: comp_def)
qed

text \<open>
  Where the anchor's trait vector is the vector of no other row, the row listed first is
  the anchor, and the reported list does not contain it.
\<close>

lemma anchor_excluded_when_unique:
  assumes "knn_contract knn" and "\<exists>r \<in> set df. cell_eq (exp_name r) sel"
    and uniq: "\<forall>j < length df. j \<noteq> anchor_index df sel \<longrightarrow>
                 fit_matrix P df ! j \<noteq> fit_matrix P df ! anchor_index df sel"
  shows "\<exists>ns. neighbors knn P df sel = Inr ns \<and> anchor_index df sel \<notin> snd ` set ns"
proof -
  let ?a = "anchor_index df sel"
  let ?f = "\<lambda>i. euclidean (fit_matrix P df ! i) (fit_matrix P df ! ?a)"
  obtain ns where ns: "length ns = min 4 (length df)" "distinct ns" "\<forall>i \<in> set ns. i < length df"
      "sorted (map ?f ns)" "neighbors knn P df sel = Inr (map (\<lambda>i. (?f i, i)) (tl ns))"
    using neighbors_by_contract [OF assms(1,2), of P] by blast
  have a: "?a < length df"
    using assms(2) by (rule anchor_index_less)
  have "?a \<notin> set (tl ns)"
  proof
    assume in_tl: "?a \<in> set (tl ns)"
    then obtain h t where ht: "ns = h # t" and at: "?a \<in> set t"
      by (cases ns) auto
    have "?f h \<le> ?f ?a"
      using ns(4) at unfolding ht by simp
    then have "?f h = 0"
      using euclidean_nonneg [of "fit_matrix P df ! h" "fit_matrix P df ! ?a"]
      by (simp add: euclidean_self)
    moreover have h: "h < length df"
      using ns(3) ht by simp
    ultimately have "fit_matrix P df ! h = fit_matrix P df ! ?a"
      using a by (intro fit_matrix_zero_distance)
    then have "h = ?a"
      using uniq h by blast
    then show False
      using ns(2) at ht by simp
  qed
  then show ?thesis
    using ns(5) by (auto simp: image_iff)
qed

text \<open>
  C2. The list does contain the anchor when another row has the anchor's traits and is
  listed before it. In \<open>ex_twins\<close> the anchor \<open>B\<close> is row 1 and row 0 has the same
  traits. Both are at distance 0 from the query; row 0 is listed first and dropped as
  "the anchor itself", and the reported list holds row 1, the anchor, at distance 0.
\<close>

theorem C2_twin_anchor_listed:
  "neighbors kneighbors_ref ex_parser ex_twins (Text [66]) = Inr [(0, 1), (sqrt 48, 2)] \<and>
   anchor_index ex_twins (Text [66]) = 1"
  by (simp add: neighbors_def target_row_def cell_eq_def kneighbors_ref_def euclidean_def
      numeric_cols_def anchor_index_def Let_def ex_simps upt_rec)

text \<open>
  This does not depend on how the library orders rows at the same distance. Rows 0 and 1 of
  \<open>ex_twins\<close> have the same trait vector, so the library is called with the same arguments
  whichever of them is the anchor, and returns all three rows. Whichever of the two it does
  not list first is reported as a neighbour of itself.
\<close>

lemma twins_some_anchor_listed:
  assumes "knn_contract knn"
  shows "(\<exists>ns. neighbors knn ex_parser ex_twins (Text [65]) = Inr ns \<and>
            anchor_index ex_twins (Text [65]) \<in> snd ` set ns) \<or>
         (\<exists>ns. neighbors knn ex_parser ex_twins (Text [66]) = Inr ns \<and>
            anchor_index ex_twins (Text [66]) \<in> snd ` set ns)"
proof -
  let ?X = "fit_matrix ex_parser ex_twins"
  have exA: "\<exists>r \<in> set ex_twins. cell_eq (exp_name r) (Text [65])"
    and exB: "\<exists>r \<in> set ex_twins. cell_eq (exp_name r) (Text [66])"
    by (simp_all add: ex_twins_def activity_def cell_eq_def)
  have iA: "anchor_index ex_twins (Text [65]) = 0" and iB: "anchor_index ex_twins (Text [66]) = 1"
    by (simp_all add: anchor_index_def ex_twins_def activity_def cell_eq_def)
  have same: "?X ! 0 = ?X ! 1"
    by (simp add: fit_matrix_def numeric_cols_def ex_simps)
  obtain ds ns where r: "knn ?X (min 4 (length ex_twins)) (?X ! 1) = (ds, ns)"
    by (cases "knn ?X (min 4 (length ex_twins)) (?X ! 1)")
  have k: "min 4 (length ex_twins) = 3" and l: "length ?X = 3"
    by (simp_all add: ex_twins_def)
  have kl: "min 4 (length ex_twins) \<le> length ?X"
    by simp
  have p: "length ns = 3" "distinct ns" "\<forall>i \<in> set ns. i < 3"
    using knn_contractD(1-3) [OF assms kl r, unfolded k l] .
  have "length ds = length ns"
    using knn_contractD(4) [OF assms kl r] by simp
  then have lds: "length ds = 3"
    using p(1) by simp
  have sub: "set ns \<subseteq> {0, 1, 2}"
  proof
    fix i assume "i \<in> set ns"
    then have "i < 3"
      using p(3) by blast
    then show "i \<in> {0, 1, 2}"
      by auto
  qed
  have "card (set ns) = card {0, 1, 2 :: nat}"
    using p(1,2) by (simp add: distinct_card)
  then have all: "set ns = {0, 1, 2}"
    using sub by (intro card_subset_eq) simp_all
  obtain h t where ht: "ns = h # t"
    using p(1) by (cases ns) auto
  have in0: "0 \<in> set ns" and in1: "1 \<in> set ns"
    unfolding all by simp_all
  have "0 \<in> set t \<or> 1 \<in> set t"
  proof (cases "h = 0")
    case True
    then show ?thesis
      using in1 ht by simp
  next
    case False
    then show ?thesis
      using in0 ht by simp
  qed
  then have listed: "0 \<in> set (tl ns) \<or> 1 \<in> set (tl ns)"
    by (simp add: ht)
  have "map snd (zip (tl ds) (tl ns)) = tl ns"
    using p(1) lds by (intro map_snd_zip) simp
  then have snd_zip: "snd ` set (zip (tl ds) (tl ns)) = set (tl ns)"
    using set_map [of snd "zip (tl ds) (tl ns)"] by simp
  have nA: "neighbors knn ex_parser ex_twins (Text [65]) = Inr (zip (tl ds) (tl ns))"
    unfolding neighbors_found [OF exA] iA same r by simp
  have nB: "neighbors knn ex_parser ex_twins (Text [66]) = Inr (zip (tl ds) (tl ns))"
    unfolding neighbors_found [OF exB] iB r by simp
  show ?thesis
    using listed by (simp add: nA nB iA iB snd_zip)
qed

text \<open>
  The order of two candidates at the same distance is the library's. Listing them in frame
  order and listing them in reverse frame order both meet \<open>knn_contract\<close>, and page 4
  reports the candidates \<open>B\<close> and \<open>C\<close> of \<open>ex_ties\<close>, both at distance 1 from \<open>A\<close>,
  in the order it is given.
\<close>

lemma tie_order_left_open:
  "knn_contract kneighbors_ref \<and> knn_contract kneighbors_rev \<and>
   neighbors kneighbors_ref ex_parser ex_ties (Text [65]) = Inr [(1, 1), (1, 2)] \<and>
   neighbors kneighbors_rev ex_parser ex_ties (Text [65]) = Inr [(1, 2), (1, 1)]"
proof (intro conjI)
  show "knn_contract kneighbors_ref"
    by (rule kneighbors_ref_contract)
  show "knn_contract kneighbors_rev"
    by (rule kneighbors_rev_contract)
  show "neighbors kneighbors_ref ex_parser ex_ties (Text [65]) = Inr [(1, 1), (1, 2)]"
    by (simp add: neighbors_def target_row_def cell_eq_def kneighbors_ref_def euclidean_def
        numeric_cols_def Let_def ex_ties_def ex_simps upt_rec)
  show "neighbors kneighbors_rev ex_parser ex_ties (Text [65]) = Inr [(1, 2), (1, 1)]"
    by (simp add: neighbors_def target_row_def cell_eq_def kneighbors_rev_def euclidean_def
        numeric_cols_def Let_def ex_ties_def ex_simps upt_rec)
qed

section \<open>The keyword table\<close>

text \<open>
  The items of \<open>Counter\<close>: which keys they hold, in which order, and with which counts.
\<close>

lemma keys_counter_add:
  "map fst (counter_add acc w) = (if w \<in> set (map fst acc) then map fst acc else map fst acc @ [w])"
  by (induction acc w rule: counter_add.induct) auto

lemma keyset_counter_add: "fst ` set (counter_add acc w) = insert w (fst ` set acc)"
  using arg_cong [OF keys_counter_add [of acc w], of set] by (auto split: if_splits)

lemma lookup_Nil: "lookup [] k = 0"
  by (simp add: lookup_def)

lemma lookup_counter_add:
  "lookup (counter_add acc w) k = lookup acc k + (if k = w then 1 else 0)"
  by (induction acc w rule: counter_add.induct) (auto simp: lookup_def)

lemma distinct_counter_add:
  "distinct (map fst acc) \<Longrightarrow> distinct (map fst (counter_add acc w))"
  by (simp add: keys_counter_add)

lemma lookup_fold:
  "lookup (fold (\<lambda>w acc. counter_add acc w) ws acc) k = lookup acc k + count_list ws k"
  by (induction ws arbitrary: acc) (auto simp: lookup_counter_add)

lemma keys_fold:
  "fst ` set (fold (\<lambda>w acc. counter_add acc w) ws acc) = fst ` set acc \<union> set ws"
  by (induction ws arbitrary: acc) (simp_all add: keyset_counter_add)

lemma distinct_fold:
  "distinct (map fst acc) \<Longrightarrow> distinct (map fst (fold (\<lambda>w acc. counter_add acc w) ws acc))"
  by (induction ws arbitrary: acc) (auto simp: distinct_counter_add)

lemma first_index_in_prefix:
  "w \<in> set pre \<Longrightarrow> first_index (pre @ rest) w < length pre"
  unfolding first_index_def
  by (induction pre) auto

lemma first_index_at_split:
  "w \<notin> set pre \<Longrightarrow> first_index (pre @ w # rest) w = length pre"
  unfolding first_index_def
  by (induction pre) auto

lemma order_fold:
  assumes "distinct (map fst acc)" and "set (map fst acc) = set pre"
    and "sorted_wrt (\<lambda>a b. first_index (pre @ ws) a < first_index (pre @ ws) b) (map fst acc)"
  shows "sorted_wrt (\<lambda>a b. first_index (pre @ ws) a < first_index (pre @ ws) b)
           (map fst (fold (\<lambda>w acc. counter_add acc w) ws acc))"
  using assms
proof (induction ws arbitrary: acc pre)
  case Nil
  then show ?case by simp
next
  case (Cons w ws)
  let ?R = "\<lambda>a b. first_index (pre @ w # ws) a < first_index (pre @ w # ws) b"
  have d: "distinct (map fst (counter_add acc w))"
    using Cons.prems(1) by (rule distinct_counter_add)
  have s: "set (map fst (counter_add acc w)) = set (pre @ [w])"
    using Cons.prems(2) by (auto simp: keys_counter_add)
  have o: "sorted_wrt ?R (map fst (counter_add acc w))"
  proof (cases "w \<in> set (map fst acc)")
    case True
    then show ?thesis
      using Cons.prems(3) by (simp add: keys_counter_add)
  next
    case False
    then have w: "w \<notin> set pre"
      using Cons.prems(2) by simp
    have "first_index (pre @ w # ws) a < first_index (pre @ w # ws) w" if "a \<in> set (map fst acc)" for a
    proof -
      have "a \<in> set pre"
        using that Cons.prems(2) by simp
      then show ?thesis
        using first_index_in_prefix [of a pre "w # ws"] first_index_at_split [OF w, of ws] by simp
    qed
    then show ?thesis
      using Cons.prems(3) False by (simp add: keys_counter_add sorted_wrt_append)
  qed
  have "sorted_wrt (\<lambda>a b. first_index ((pre @ [w]) @ ws) a < first_index ((pre @ [w]) @ ws) b)
          (map fst (fold (\<lambda>w acc. counter_add acc w) ws (counter_add acc w)))"
    using d s o by (intro Cons.IH) simp_all
  then show ?case
    by simp
qed

lemma Counter_keys: "fst ` set (Counter ws) = set ws"
  by (simp add: Counter_def keys_fold)

lemma Counter_distinct: "distinct (map fst (Counter ws))"
  by (simp add: Counter_def distinct_fold)

lemma Counter_order:
  "sorted_wrt (\<lambda>a b. first_index ws a < first_index ws b) (map fst (Counter ws))"
  using order_fold [of "[]" "[]" ws] by (simp add: Counter_def)

lemma Counter_count:
  assumes "(k, c) \<in> set (Counter ws)"
  shows "c = count_list ws k"
proof -
  have "map_of (Counter ws) k = Some c"
    using assms Counter_distinct by simp
  then have "lookup (Counter ws) k = c"
    by (simp add: lookup_def)
  then show ?thesis
    by (simp add: Counter_def lookup_fold lookup_Nil)
qed

text \<open>
  \<open>most_common\<close>: a stable sort by descending count, cut after \<open>n\<close> items. Items of
  equal count keep the order they have in the \<open>Counter\<close>.
\<close>

lemma sorted_wrt_filter_nth:
  assumes "sorted_wrt R (filter Q L)" and "i < j" and "j < length L" and "Q (L ! i)" and "Q (L ! j)"
  shows "R (L ! i) (L ! j)"
  using assms
proof (induction L arbitrary: i j)
  case Nil
  then show ?case by simp
next
  case (Cons x L)
  show ?case
  proof (cases i)
    case 0
    then obtain j' where j: "j = Suc j'"
      using Cons.prems(2) by (cases j) simp_all
    then have "L ! j' \<in> set (filter Q L)"
      using Cons.prems(3,5) by simp
    then show ?thesis
      using Cons.prems(1,4) 0 j by simp
  next
    case (Suc i')
    then obtain j' where j: "j = Suc j'"
      using Cons.prems(2) by (cases j) simp_all
    have "sorted_wrt R (filter Q L)"
      using Cons.prems(1) by (cases "Q x") simp_all
    then have "R (L ! i') (L ! j')"
      using Cons.prems(2-5) Suc j by (intro Cons.IH) simp_all
    then show ?thesis
      using Suc j by simp
  qed
qed

lemma most_common_length: "length (most_common n items) \<le> n"
  by (simp add: most_common_def)

lemma most_common_subset: "set (most_common n items) \<subseteq> set items"
  using set_take_subset [of n "sort_key (\<lambda>kc. - int (snd kc)) items"]
  by (simp add: most_common_def)

lemma most_common_distinct:
  "distinct (map fst items) \<Longrightarrow> distinct (map fst (most_common n items))"
proof -
  assume d: "distinct (map fst items)"
  let ?S = "sort_key (\<lambda>kc. - int (snd kc)) items"
  have "mset (map fst ?S) = mset (map fst items)"
    by simp
  then have "distinct (map fst ?S)"
    using d by (metis distinct_count_atmost_1 set_mset_mset)
  then show ?thesis
    by (simp add: most_common_def take_map [symmetric] distinct_take)
qed

lemma most_common_counts: "sorted_wrt (\<lambda>a b. a \<ge> b) (map snd (most_common n items))"
proof -
  let ?g = "\<lambda>kc :: ustr \<times> nat. - int (snd kc)"
  have "sorted (map ?g (sort_key ?g items))"
    by (rule sorted_sort_key)
  then have "sorted_wrt (\<lambda>a b. ?g a \<le> ?g b) (sort_key ?g items)"
    by (simp add: sorted_wrt_map)
  then have "sorted_wrt (\<lambda>a b. snd a \<ge> snd b) (sort_key ?g items)"
    by simp
  then have "sorted_wrt (\<lambda>a b. snd a \<ge> snd b) (take n (sort_key ?g items))"
    by (rule sorted_wrt_take)
  then show ?thesis
    by (simp add: most_common_def sorted_wrt_map)
qed

lemma most_common_stable:
  assumes "sorted_wrt (\<lambda>a b. R (fst a) (fst b)) items"
    and "i < j" and "j < length (most_common n items)"
    and "snd (most_common n items ! i) = snd (most_common n items ! j)"
  shows "R (fst (most_common n items ! i)) (fst (most_common n items ! j))"
proof -
  let ?g = "\<lambda>kc :: ustr \<times> nat. - int (snd kc)"
  let ?S = "sort_key ?g items"
  let ?out = "most_common n items"
  let ?c = "?g (?out ! j)"
  let ?Q = "\<lambda>y. ?g y = ?c"
  let ?R = "\<lambda>a b. R (fst a) (fst b)"
  have "sorted_wrt ?R (filter ?Q items)"
    using assms(1) by (rule sorted_wrt_filter)
  then have "sorted_wrt ?R (filter ?Q ?S)"
    by (simp only: sort_key_stable)
  then have "sorted_wrt ?R (filter ?Q (take n ?S @ drop n ?S))"
    by simp
  then have srt: "sorted_wrt ?R (filter ?Q ?out)"
    by (simp add: most_common_def sorted_wrt_append del: append_take_drop_id)
  have qi: "?Q (?out ! i)" and qj: "?Q (?out ! j)"
    using assms(4) by simp_all
  show ?thesis
    by (rule sorted_wrt_filter_nth [where R = ?R, OF srt assms(2,3) qi qj])
qed

text \<open>A token is a non-empty run of word characters.\<close>

lemma findall_w_tokens:
  "w \<in> set (findall_w isw cs) \<Longrightarrow> w \<noteq> [] \<and> (\<forall>c \<in> set w. isw c)"
proof (induction isw cs rule: findall_w.induct)
  case (1 isw)
  then show ?case by simp
next
  case (2 isw c cs)
  show ?case
  proof (cases "isw c")
    case True
    then have "w = c # takeWhile isw cs \<or> w \<in> set (findall_w isw (dropWhile isw cs))"
      using "2.prems" by simp
    then show ?thesis
    proof
      assume w: "w = c # takeWhile isw cs"
      have "\<forall>x \<in> set (takeWhile isw cs). isw x"
        using set_takeWhileD by fastforce
      then show ?thesis
        using True w by simp
    next
      assume "w \<in> set (findall_w isw (dropWhile isw cs))"
      then show ?thesis
        by (rule "2.IH"(1) [OF True])
    qed
  next
    case False
    then have "w \<in> set (findall_w isw cs)"
      using "2.prems" by simp
    then show ?thesis
      by (rule "2.IH"(2) [OF False])
  qed
qed

lemma words_of_kept: "w \<in> set (words_of isw text) \<Longrightarrow> keep_word w \<and> w \<in> set (findall_w isw text)"
  by (simp add: words_of_def)

text \<open>
  C5. The keyword list has at most 30 entries, with different tokens. Every token has
  at least two code points, is no stop word (\<open>nan\<close> and \<open>None\<close> are stop words) and is
  a word of the text; its count is the number of times it occurs among the kept words.
  The counts do not increase along the list, and of two entries with the same count the
  one met first in the text comes first.
\<close>

theorem C5_keywords:
  "length (word_counts isw text) \<le> 30 \<and>
   distinct (map fst (word_counts isw text)) \<and>
   (\<forall>(t, c) \<in> set (word_counts isw text).
      length t \<ge> 2 \<and> t \<notin> set stop_words \<and> t \<in> set (findall_w isw text) \<and>
      c = count_list (words_of isw text) t \<and> c \<ge> 1) \<and>
   [110, 97, 110] \<in> set stop_words \<and> [78, 111, 110, 101] \<in> set stop_words \<and>
   sorted_wrt (\<lambda>a b. a \<ge> b) (map snd (word_counts isw text)) \<and>
   (\<forall>i j. i < j \<and> j < length (word_counts isw text) \<and>
           snd (word_counts isw text ! i) = snd (word_counts isw text ! j) \<longrightarrow>
      first_index (words_of isw text) (fst (word_counts isw text ! i))
        < first_index (words_of isw text) (fst (word_counts isw text ! j)))"
proof -
  let ?ws = "words_of isw text"
  let ?out = "word_counts isw text"
  have out: "?out = most_common 30 (Counter ?ws)"
    by (simp add: word_counts_def)
  have len: "length ?out \<le> 30"
    unfolding out by (rule most_common_length)
  have dist: "distinct (map fst ?out)"
    unfolding out by (rule most_common_distinct [OF Counter_distinct])
  have items: "length t \<ge> 2 \<and> t \<notin> set stop_words \<and> t \<in> set (findall_w isw text) \<and>
      c = count_list ?ws t \<and> c \<ge> 1" if "(t, c) \<in> set ?out" for t c
  proof -
    have in_counter: "(t, c) \<in> set (Counter ?ws)"
      using that most_common_subset unfolding out by blast
    then have "t \<in> fst ` set (Counter ?ws)"
      by force
    then have t: "t \<in> set ?ws"
      by (simp only: Counter_keys)
    then have kept: "keep_word t" and tok: "t \<in> set (findall_w isw text)"
      using words_of_kept by blast+
    have c: "c = count_list ?ws t"
      using in_counter by (rule Counter_count)
    have "count_list ?ws t \<noteq> 0"
      using t by (simp add: count_list_0_iff)
    then show ?thesis
      using kept tok c by (simp add: keep_word_def)
  qed
  have stop: "[110, 97, 110] \<in> set stop_words" "[78, 111, 110, 101] \<in> set stop_words"
    by (simp_all add: stop_words_def)
  have counts: "sorted_wrt (\<lambda>a b. a \<ge> b) (map snd ?out)"
    unfolding out by (rule most_common_counts)
  have order: "sorted_wrt (\<lambda>a b. first_index ?ws (fst a) < first_index ?ws (fst b)) (Counter ?ws)"
    using Counter_order [of ?ws] by (simp add: sorted_wrt_map)
  have ties: "first_index ?ws (fst (?out ! i)) < first_index ?ws (fst (?out ! j))"
    if "i < j" "j < length ?out" "snd (?out ! i) = snd (?out ! j)" for i j
    using that unfolding out by (intro most_common_stable [OF order]) 
  have items_all: "\<forall>(t, c) \<in> set ?out.
      length t \<ge> 2 \<and> t \<notin> set stop_words \<and> t \<in> set (findall_w isw text) \<and>
      c = count_list ?ws t \<and> c \<ge> 1"
  proof (rule ballI)
    fix x assume "x \<in> set ?out"
    then show "case x of (t, c) \<Rightarrow>
      length t \<ge> 2 \<and> t \<notin> set stop_words \<and> t \<in> set (findall_w isw text) \<and>
      c = count_list ?ws t \<and> c \<ge> 1"
      using items [of "fst x" "snd x"] by (simp add: case_prod_beta)
  qed
  have ties_all: "\<forall>i j. i < j \<and> j < length ?out \<and> snd (?out ! i) = snd (?out ! j) \<longrightarrow>
      first_index ?ws (fst (?out ! i)) < first_index ?ws (fst (?out ! j))"
    using ties by blast
  show ?thesis
    by (intro conjI len dist items_all stop counts ties_all)
qed

text \<open>
  The example text, its tokens and its keyword table: \<open>nan\<close> and \<open>None\<close> are dropped as
  stop words and \<open>c\<close> as too short; \<open>bb\<close> and \<open>aa\<close> both occur twice and \<open>bb\<close> is met first.
\<close>

lemma ex_tokens:
  "findall_w ex_isw ex_text = [[98, 98], [97, 97], [110, 97, 110], [78, 111, 110, 101], [97, 97], [99], [98, 98], [100, 100]]"
  by (simp add: ex_isw_def ex_text_def)

lemma ex_word_counts:
  "word_counts ex_isw ex_text = [([98, 98], 2), ([97, 97], 2), ([100, 100], 1)]"
  by (simp add: word_counts_def most_common_def Counter_def words_of_def keep_word_def
      stop_words_def ex_isw_def ex_text_def)

theorem C5_keywords_witness:
  "length (word_counts ex_isw ex_text) \<le> 30 \<and>
   sorted_wrt (\<lambda>a b. a \<ge> b) (map snd (word_counts ex_isw ex_text)) \<and>
   first_index (words_of ex_isw ex_text) (fst (word_counts ex_isw ex_text ! 0))
     < first_index (words_of ex_isw ex_text) (fst (word_counts ex_isw ex_text ! 1))"
proof -
  have "0 < (1::nat) \<and> 1 < length (word_counts ex_isw ex_text) \<and>
      snd (word_counts ex_isw ex_text ! 0) = snd (word_counts ex_isw ex_text ! 1) \<longrightarrow>
    first_index (words_of ex_isw ex_text) (fst (word_counts ex_isw ex_text ! 0))
      < first_index (words_of ex_isw ex_text) (fst (word_counts ex_isw ex_text ! 1))"
    using C5_keywords [of ex_isw ex_text] by blast
  moreover have "1 < length (word_counts ex_isw ex_text) \<and>
      snd (word_counts ex_isw ex_text ! 0) = snd (word_counts ex_isw ex_text ! 1)"
    by (simp add: ex_word_counts)
  ultimately show ?thesis
    using C5_keywords [of ex_isw ex_text] by simp
qed

end
